theory Spec2Isabelle
  imports Main "HOL-Library.Multiset"
begin

section \<open>The Tron lobby server: data\<close>

text \<open>
  The embedding follows \<^verbatim>\<open>server/server.go\<close>. A \<^verbatim>\<open>net.Conn\<close> is a handle (a natural
  number); what is written to connections is kept as a trace in the field \<open>wire\<close>, and what
  \<^verbatim>\<open>fmt.Printf\<close> prints is kept in \<open>stdout\<close>, one entry per call. Go's \<^verbatim>\<open>int\<close> is modelled
  by \<open>int\<close>: the only arithmetic is the increment of the id counter, once per admission.
\<close>

record client =
  id' :: int
  conn :: nat
  color :: string
  ready :: bool

record msgFormat =
  senderId :: int
  msg :: string

record StartGame =
  Type :: string
  Colors :: "string list"

text \<open>One constructor per \<^verbatim>\<open>Printf\<close>/\<^verbatim>\<open>Println\<close> call of the source, with its arguments.\<close>

datatype printed =
    ClientSubscribed string
  | ClientUnsubscribed string
  | ServerShutdown
  | TickerStarted nat
  | TickingStopping
  | TickingStopped
  | PlayerNotFound
  | ErrorProcessing string
  | UnknownLobbyType
  | UnknownGameType
  | FatalStartGame string
  | ErrorDuringDisconnect
  | ClientDisconnected int
  | InitiatingShutdown
  | Serving nat
  | StopListening
  | ErrorWhileListening

datatype listener = Open | Closed

text \<open>
  The three stop channels are buffered with capacity 1 (\<^verbatim>\<open>make(chan bool, 1)\<close>); a channel is
  the list of values in its buffer. \<open>ticking\<close> is the atomic flag. \<open>serverListener\<close> records
  whether \<^verbatim>\<open>Close\<close> has been called on the listener, \<open>listening\<close> whether the loop of
  \<^verbatim>\<open>hostServer\<close> is still running, \<open>tickers\<close> how many ticker goroutines are alive and
  \<open>launched\<close> how many \<^verbatim>\<open>go s.ticker()\<close> statements have been executed.
\<close>

record Server =
  players :: "client list"
  free_colors :: "string list"
  ids :: int
  phase :: int
  ticking :: bool
  stopTick :: "bool list"
  stopListen :: "bool list"
  stopServer :: "bool list"
  serverListener :: listener
  listening :: bool
  tickers :: nat
  launched :: nat
  wire :: "(nat \<times> string) list"
  stdout :: "printed list"

text \<open>
  A handler either returns, or parks its goroutine on a send to a full channel (the state
  is the one at that send), or faults on a nil pointer, which ends the process.
\<close>

datatype outcome = Done Server | Blocks Server | Panics

fun state_of :: "outcome \<Rightarrow> Server option" where
  "state_of (Done s) = Some s"
| "state_of (Blocks s) = Some s"
| "state_of Panics = None"

fun parked :: "outcome \<Rightarrow> bool" where
  "parked (Blocks s) = True"
| "parked r = False"

subsection \<open>Library functions\<close>

text \<open>
  \<^verbatim>\<open>encoding/json\<close> is not part of the repository, so it is a parameter of the handlers.
  \<^verbatim>\<open>Unmarshal\<close> checks the syntax of its input before it touches the target: on a syntax
  error the fresh target keeps its zero values (\<open>SyntaxError\<close>, with the error text).
  Otherwise it fills the fields it can and may still return an error (\<open>Decoded\<close>, with the
  optional error text and the resulting \<^verbatim>\<open>Type\<close> field). The handlers read no other field.
\<close>

datatype schema = ChatData | GameData

datatype unmarshaled = SyntaxError string | Decoded "string option" string

record json =
  Unmarshal :: "schema \<Rightarrow> string \<Rightarrow> unmarshaled"
  Marshal :: "StartGame \<Rightarrow> string + string"

fun data_Type :: "unmarshaled \<Rightarrow> string" where
  "data_Type (SyntaxError e) = []"
| "data_Type (Decoded e t) = t"

fun data_err :: "unmarshaled \<Rightarrow> bool" where
  "data_err (SyntaxError e) = True"
| "data_err (Decoded e t) = (e \<noteq> None)"

text \<open>
  \<^verbatim>\<open>strings.TrimSpace\<close> removes leading and trailing white space as Unicode defines it; on
  the bytes of a UTF-8 string these are the following encodings (U+0009 to U+000D, U+0020,
  U+0085, U+00A0, U+1680, U+2000 to U+200A, U+2028, U+2029, U+202F, U+205F, U+3000).
\<close>

definition spaces :: "string list" where
  "spaces =
    [[CHR 0x09], [CHR 0x0A], [CHR 0x0B], [CHR 0x0C], [CHR 0x0D], [CHR 0x20],
     [CHR 0xC2, CHR 0x85], [CHR 0xC2, CHR 0xA0], [CHR 0xE1, CHR 0x9A, CHR 0x80],
     [CHR 0xE2, CHR 0x80, CHR 0x80], [CHR 0xE2, CHR 0x80, CHR 0x81],
     [CHR 0xE2, CHR 0x80, CHR 0x82], [CHR 0xE2, CHR 0x80, CHR 0x83],
     [CHR 0xE2, CHR 0x80, CHR 0x84], [CHR 0xE2, CHR 0x80, CHR 0x85],
     [CHR 0xE2, CHR 0x80, CHR 0x86], [CHR 0xE2, CHR 0x80, CHR 0x87],
     [CHR 0xE2, CHR 0x80, CHR 0x88], [CHR 0xE2, CHR 0x80, CHR 0x89],
     [CHR 0xE2, CHR 0x80, CHR 0x8A], [CHR 0xE2, CHR 0x80, CHR 0xA8],
     [CHR 0xE2, CHR 0x80, CHR 0xA9], [CHR 0xE2, CHR 0x80, CHR 0xAF],
     [CHR 0xE2, CHR 0x81, CHR 0x9F], [CHR 0xE3, CHR 0x80, CHR 0x80]]"

fun starts_with :: "string \<Rightarrow> string \<Rightarrow> bool" where
  "starts_with [] s = True"
| "starts_with (c # w) [] = False"
| "starts_with (c # w) (d # s) = (c = d \<and> starts_with w s)"

text \<open>
  The number of bytes of the white-space rune at the front of the string, 0 when the
  string does not start with one.
\<close>

fun space_width :: "string list \<Rightarrow> string \<Rightarrow> nat" where
  "space_width [] s = 0"
| "space_width (w # ws) s = (if w \<noteq> [] \<and> starts_with w s then length w else space_width ws s)"

function TrimLeft :: "string list \<Rightarrow> string \<Rightarrow> string" where
  "TrimLeft ws s =
     (if s = [] \<or> space_width ws s = 0 then s else TrimLeft ws (drop (space_width ws s) s))"
  by pat_completeness auto
termination
  by (relation "measure (\<lambda>(ws, s). length s)") auto

definition TrimSpace :: "string \<Rightarrow> string" where
  "TrimSpace s = rev (TrimLeft (map rev spaces) (rev (TrimLeft spaces s)))"

section \<open>The server\<close>

definition colors :: "string list" where
  "colors = [''#ff0000'', ''#00ff00'', ''#0000ff'']"

text \<open>
  \<^verbatim>\<open>Create\<close>, followed by the start of \<^verbatim>\<open>hostServer\<close>: the listener is bound and its
  loop runs.
\<close>

definition Create :: Server where
  "Create = \<lparr>players = [], free_colors = colors, ids = 0, phase = 0, ticking = False,
     stopTick = [], stopListen = [], stopServer = [], serverListener = Open,
     listening = True, tickers = 0, launched = 0, wire = [], stdout = []\<rparr>"

definition print :: "printed \<Rightarrow> Server \<Rightarrow> Server" where
  "print l s = s\<lparr>stdout := stdout s @ [l]\<rparr>"

text \<open>A send on a channel of capacity 1: \<open>None\<close> when the buffer is full.\<close>

definition chan_send :: "bool list \<Rightarrow> bool list option" where
  "chan_send ch = (if length ch < 1 then Some (ch @ [True]) else None)"

text \<open>
  \<^verbatim>\<open>subscribe\<close>: \<^verbatim>\<open>Front\<close> of an empty list is nil, and reading \<^verbatim>\<open>e.Value\<close> then faults.
\<close>

definition subscribe :: "Server \<Rightarrow> client \<Rightarrow> outcome" where
  "subscribe s p =
     (case free_colors s of
        [] \<Rightarrow> Panics
      | e # rest \<Rightarrow>
          Done (print (ClientSubscribed e)
            (s\<lparr>players := players s @ [p\<lparr>id' := ids s, color := e\<rparr>],
               ids := ids s + 1,
               free_colors := rest\<rparr>)))"

text \<open>
  A \<^verbatim>\<open>*client\<close> that points into \<open>players\<close> is the position of the client it points to,
  and nil is \<open>None\<close>. Every slot of \<open>players\<close> holds an object of its own (each admission
  allocates one), so the comparison \<^verbatim>\<open>p == player\<close> in the loop of \<^verbatim>\<open>unsubscribe\<close> holds at
  that position and nowhere else.
\<close>

definition unsubscribe :: "Server \<Rightarrow> nat option \<Rightarrow> Server" where
  "unsubscribe s p =
     (case p of
        None \<Rightarrow> s
      | Some i \<Rightarrow>
          if i < length (players s)
          then (print (ClientUnsubscribed (color (players s ! i))) s)
                 \<lparr>free_colors := free_colors s @ [color (players s ! i)],
                  players := take i (players s) @ drop (Suc i) (players s)\<rparr>
          else s)"

fun find_first :: "client list \<Rightarrow> int \<Rightarrow> nat option" where
  "find_first [] x = None"
| "find_first (p # ps) x = (if id' p = x then Some 0 else map_option Suc (find_first ps x))"

definition findById :: "Server \<Rightarrow> int \<Rightarrow> nat option" where
  "findById s x = find_first (players s) x"

definition newline :: string where
  "newline = [CHR 0x0A]"

definition sendAllClients :: "Server \<Rightarrow> string \<Rightarrow> int \<Rightarrow> Server" where
  "sendAllClients s message except_id =
     s\<lparr>wire := wire s @
        map (\<lambda>p. (conn p, message @ newline)) (filter (\<lambda>p. id' p \<noteq> except_id) (players s))\<rparr>"

definition send :: "nat \<Rightarrow> string \<Rightarrow> Server \<Rightarrow> Server" where
  "send c m s = s\<lparr>wire := wire s @ [(c, m @ newline)]\<rparr>"

definition isAllReady :: "Server \<Rightarrow> bool" where
  "isAllReady s = (\<not> length (players s) < 2 \<and> list_all ready (players s))"

definition tick_message :: string where
  \<open>tick_message = ''{"type" : "tick"}''\<close>

text \<open>
  One turn of the loop of \<^verbatim>\<open>ticker\<close>, for a ticker goroutine that is alive: the broadcast,
  then the non-blocking look at \<open>stopTick\<close>. On a stop the loop ends and the deferred
  \<^verbatim>\<open>UnSet\<close> runs.
\<close>

definition ticker :: "Server \<Rightarrow> Server" where
  "ticker s =
     (if tickers s = 0 then s
      else let s1 = sendAllClients s tick_message (- 1) in
        (case stopTick s1 of
           [] \<Rightarrow> s1
         | v # rest \<Rightarrow>
             (print TickingStopped (print TickingStopping (s1\<lparr>stopTick := rest\<rparr>)))
               \<lparr>ticking := False, tickers := tickers s1 - 1\<rparr>))"

definition start_game :: "Server \<Rightarrow> StartGame" where
  "start_game s = \<lparr>Type = ''start_game'', Colors = map color (players s)\<rparr>"

text \<open>The lobby branch of the switch in \<^verbatim>\<open>handleMessage\<close> (\<^verbatim>\<open>case 0\<close>).\<close>

definition lobby :: "json \<Rightarrow> Server \<Rightarrow> string \<Rightarrow> nat option \<Rightarrow> outcome" where
  "lobby J s m p =
     (let d = Unmarshal J ChatData m;
          s1 = (if data_err d then print (ErrorProcessing m) s else s)
      in if data_Type d = ''chat'' then
           (case p of
              None \<Rightarrow> Panics
            | Some i \<Rightarrow> Done (sendAllClients s1 m (id' (players s1 ! i))))
         else if data_Type d = ''ready'' then
           (case p of
              None \<Rightarrow> Panics
            | Some i \<Rightarrow>
                let s2 = s1\<lparr>players := (players s1)[i := (players s1 ! i)\<lparr>ready := True\<rparr>]\<rparr>
                in if isAllReady s2 then
                     (case Marshal J (start_game s2) of
                        Inl e \<Rightarrow> Done (print (FatalStartGame e) s2)
                      | Inr jsonByte \<Rightarrow> Done ((sendAllClients s2 jsonByte (- 1))\<lparr>phase := 1\<rparr>))
                   else Done s2)
         else Done (print UnknownLobbyType s1))"

text \<open>
  The game branch (\<^verbatim>\<open>case 1\<close>). It starts with the send on \<open>stopListen\<close> and the close of
  the listener, for every message.
\<close>

definition game :: "json \<Rightarrow> Server \<Rightarrow> string \<Rightarrow> nat option \<Rightarrow> outcome" where
  "game J s m p =
     (case chan_send (stopListen s) of
        None \<Rightarrow> Blocks s
      | Some ch \<Rightarrow>
          let s0 = s\<lparr>stopListen := ch, serverListener := Closed\<rparr>;
              d = Unmarshal J GameData m;
              s1 = (if data_err d then print (ErrorProcessing m) s0 else s0)
          in if data_Type d = ''start'' then
               (if \<not> ticking s1
                then Done (print (TickerStarted (length (players s1)))
                       (s1\<lparr>ticking := True, tickers := tickers s1 + 1,
                           launched := launched s1 + 1\<rparr>))
                else Done s1)
             else if data_Type d = ''player_event'' then
               (case p of
                  None \<Rightarrow> Panics
                | Some i \<Rightarrow> Done (sendAllClients s1 m (id' (players s1 ! i))))
             else Done (print UnknownGameType s1))"

definition handleMessage :: "json \<Rightarrow> Server \<Rightarrow> msgFormat \<Rightarrow> outcome" where
  "handleMessage J s mf =
     (let m = TrimSpace (msg mf);
          p = findById s (senderId mf);
          s1 = (if p = None then print PlayerNotFound s else s)
      in if phase s1 = 0 then lobby J s1 m p
         else if phase s1 = 1 then game J s1 m p
         else Done s1)"

definition shutdown :: "Server \<Rightarrow> outcome" where
  "shutdown s =
     (let s1 = print InitiatingShutdown s in
      case chan_send (stopListen s1) of
        None \<Rightarrow> Blocks s1
      | Some ch \<Rightarrow>
          let s2 = s1\<lparr>stopListen := ch, serverListener := Closed\<rparr> in
          (case chan_send (stopServer s2) of
             None \<Rightarrow> Blocks s2
           | Some ch' \<Rightarrow> Done (s2\<lparr>stopServer := ch'\<rparr>)))"

definition handleDisconnect :: "Server \<Rightarrow> int \<Rightarrow> outcome" where
  "handleDisconnect s x =
     (let p = findById s x;
          s1 = (if p = None then print ErrorDuringDisconnect s else s);
          s2 = print (ClientDisconnected x) (unsubscribe s1 p)
      in if length (players s2) < 1 then
           (if ticking s2 then
              (case chan_send (stopTick s2) of
                 None \<Rightarrow> Blocks s2
               | Some ch \<Rightarrow> shutdown (s2\<lparr>stopTick := ch\<rparr>))
            else shutdown s2)
         else Done s2)"

definition connect_message :: "string \<Rightarrow> string" where
  \<open>connect_message c = ''{ "type" : "connect", "color" : "'' @ c @ ''" }''\<close>

definition join_message :: "string \<Rightarrow> string" where
  \<open>join_message c =
     ''{ "type" : "chat", "color" : "'' @ c @ ''", "message" : "'' @ c @ '' has connected" }''\<close>

text \<open>
  \<^verbatim>\<open>handleConnect\<close> up to its read loop. The read loop is the source of the message and
  disconnect events of the player.
\<close>

definition handleConnect :: "Server \<Rightarrow> nat \<Rightarrow> outcome" where
  "handleConnect s c =
     (case subscribe (print (Serving c) s) \<lparr>id' = 0, conn = c, color = [], ready = False\<rparr> of
        Done s1 \<Rightarrow>
          let p = last (players s1) in
          Done (sendAllClients (send c (connect_message (color p)) s1)
                  (join_message (color p)) (id' p))
      | r \<Rightarrow> r)"

text \<open>
  One turn of the loop of \<^verbatim>\<open>hostServer\<close>, given what \<^verbatim>\<open>Accept\<close> returns (\<open>None\<close> is an error;
  on a closed listener it is always an error), together with the admission that the
  Broker starts for an accepted connection. After an error that is not a requested stop
  the loop forwards the nil connection, and \<^verbatim>\<open>handleConnect\<close> faults on it.
\<close>

definition hostServer :: "Server \<Rightarrow> nat option \<Rightarrow> outcome" where
  "hostServer s r =
     (if \<not> listening s then Done s
      else case (if serverListener s = Closed then None else r) of
        Some c \<Rightarrow> handleConnect s c
      | None \<Rightarrow>
          (case stopListen s of
             v # rest \<Rightarrow> Done (print StopListening (s\<lparr>stopListen := rest, listening := False\<rparr>))
           | [] \<Rightarrow> Panics))"

subsection \<open>The Broker loop\<close>

text \<open>
  The events that the select of \<^verbatim>\<open>Start\<close> and the two background loops react to: a turn
  of the accept loop, an inbound line, a disconnect notice, a turn of the ticker loop, and
  the receive from \<open>stopServer\<close>, which ends the loop. A handler that parks or faults ends
  the run.
\<close>

datatype event = Accept "nat option" | Msg msgFormat | Dconn int | Tick | StopServer

fun step :: "json \<Rightarrow> Server \<Rightarrow> event \<Rightarrow> outcome" where
  "step J s (Accept r) = hostServer s r"
| "step J s (Msg mf) = handleMessage J s mf"
| "step J s (Dconn x) = handleDisconnect s x"
| "step J s Tick = Done (ticker s)"
| "step J s StopServer = Done s"

fun Start :: "json \<Rightarrow> Server \<Rightarrow> event list \<Rightarrow> outcome" where
  "Start J s [] = Done s"
| "Start J s (e # es) =
     (if e = StopServer \<and> stopServer s \<noteq> []
      then Done (print ServerShutdown (s\<lparr>stopServer := tl (stopServer s)\<rparr>))
      else case step J s e of
             Done s' \<Rightarrow> Start J s' es
           | r \<Rightarrow> r)"

text \<open>The states a run can be in: where it returned, or where the Broker is parked.\<close>

definition reaches :: "json \<Rightarrow> Server \<Rightarrow> event list \<Rightarrow> Server \<Rightarrow> bool" where
  "reaches J s es t = (Start J s es = Done t \<or> Start J s es = Blocks t)"

subsection \<open>Sample payloads\<close>

text \<open>
  What \<^verbatim>\<open>encoding/json\<close> returns on the payloads used in the examples below: the lines of
  the repository's test, a player event, and text that is not JSON.
\<close>

definition sample_Unmarshal :: "schema \<Rightarrow> string \<Rightarrow> unmarshaled" where
  \<open>sample_Unmarshal sch m =
     (if m = ''{"type":"ready"}'' then Decoded None ''ready''
      else if m = ''{"type":"start"}'' then Decoded None ''start''
      else if m = ''{"type":"chat","color":"#ff0000","message":"hi"}'' then Decoded None ''chat''
      else if m = ''{"type":"player_event","event":{"coord_x":1,"coord_y":2,"direction":"up"}}''
        then Decoded None ''player_event''
      else if m = ''{"type":"pause"}'' then Decoded None ''pause''
      else SyntaxError ''invalid character'')\<close>

fun quoted :: "string list \<Rightarrow> string" where
  \<open>quoted [] = []\<close>
| \<open>quoted [c] = ''"'' @ c @ ''"''\<close>
| \<open>quoted (c # cs) = ''"'' @ c @ ''",'' @ quoted cs\<close>

definition sample_Marshal :: "StartGame \<Rightarrow> string + string" where
  \<open>sample_Marshal sg =
     Inr (''{"type":"'' @ Type sg @ ''","colors":['' @ quoted (Colors sg) @ '']}'')\<close>

definition sample_json :: json where
  "sample_json = \<lparr>Unmarshal = sample_Unmarshal, Marshal = sample_Marshal\<rparr>"

definition ready_json :: string where
  \<open>ready_json = ''{"type":"ready"}''\<close>

definition start_json :: string where
  \<open>start_json = ''{"type":"start"}''\<close>

definition chat_json :: string where
  \<open>chat_json = ''{"type":"chat","color":"#ff0000","message":"hi"}''\<close>

definition event_json :: string where
  \<open>event_json = ''{"type":"player_event","event":{"coord_x":1,"coord_y":2,"direction":"up"}}''\<close>

definition pause_json :: string where
  \<open>pause_json = ''{"type":"pause"}''\<close>

text \<open>The line a Reader forwards: what \<^verbatim>\<open>ReadString\<close> returns ends with the newline.\<close>

definition line :: "int \<Rightarrow> string \<Rightarrow> event" where
  "line x m = Msg \<lparr>senderId = x, msg = m @ newline\<rparr>"

section \<open>Basic facts\<close>

text \<open>
  Sample states: the lobby after the connections 7 and 8 were admitted, the same session
  after both players sent their ready line, and after the first start line and the exit
  of the accept loop.
\<close>

definition lobby_of_two :: Server where
  "lobby_of_two =
     \<lparr>players = [\<lparr>id' = 0, conn = 7, color = ''#ff0000'', ready = False\<rparr>,
                 \<lparr>id' = 1, conn = 8, color = ''#00ff00'', ready = False\<rparr>],
      free_colors = [''#0000ff''], ids = 2, phase = 0, ticking = False,
      stopTick = [], stopListen = [], stopServer = [], serverListener = Open,
      listening = True, tickers = 0, launched = 0,
      wire = [(7, connect_message ''#ff0000'' @ newline),
              (8, connect_message ''#00ff00'' @ newline),
              (7, join_message ''#00ff00'' @ newline)],
      stdout = [Serving 7, ClientSubscribed ''#ff0000'', Serving 8, ClientSubscribed ''#00ff00'']\<rparr>"

definition start_game_json :: string where
  \<open>start_game_json = ''{"type":"start_game","colors":["#ff0000","#00ff00"]}''\<close>

definition game_of_two :: Server where
  "game_of_two =
     lobby_of_two
       \<lparr>players := [\<lparr>id' = 0, conn = 7, color = ''#ff0000'', ready = True\<rparr>,
                    \<lparr>id' = 1, conn = 8, color = ''#00ff00'', ready = True\<rparr>],
        phase := 1,
        wire := wire lobby_of_two @
          [(7, start_game_json @ newline), (8, start_game_json @ newline)]\<rparr>"

definition ticking_game :: Server where
  "ticking_game =
     game_of_two
       \<lparr>ticking := True, serverListener := Closed, listening := False, tickers := 1,
        launched := 1,
        stdout := stdout game_of_two @ [TickerStarted 2, StopListening]\<rparr>"

definition ids_ok :: "Server \<Rightarrow> bool" where
  "ids_ok s = (0 \<le> ids s \<and> distinct (map id' (players s))
     \<and> (\<forall>x \<in> set (map id' (players s)). 0 \<le> x \<and> x < ids s))"

text \<open>
  Sample runs: two players join and get ready, the first line of the game phase arrives,
  the accept loop takes the stop signal and exits, and a second line arrives.
\<close>

definition two_messages :: "event list" where
  "two_messages =
     [Accept (Some 7), Accept (Some 8), line 0 ready_json, line 1 ready_json,
      line 0 start_json, Accept None, line 1 event_json]"

definition two_starts :: "event list" where
  "two_starts =
     [Accept (Some 7), Accept (Some 8), line 0 ready_json, line 1 ready_json,
      line 0 start_json, Accept None, line 1 start_json]"

definition total_colors :: "Server \<Rightarrow> string multiset" where
  "total_colors s = mset (free_colors s) + mset (map color (players s))"

lemma print_simps [simp]:
  "players (print l s) = players s" "free_colors (print l s) = free_colors s"
  "ids (print l s) = ids s" "phase (print l s) = phase s" "ticking (print l s) = ticking s"
  "stopTick (print l s) = stopTick s" "stopListen (print l s) = stopListen s"
  "stopServer (print l s) = stopServer s" "serverListener (print l s) = serverListener s"
  "listening (print l s) = listening s" "tickers (print l s) = tickers s"
  "launched (print l s) = launched s" "wire (print l s) = wire s"
  "stdout (print l s) = stdout s @ [l]"
  by (simp_all add: print_def)

lemma sendAllClients_simps [simp]:
  "players (sendAllClients s m x) = players s" "free_colors (sendAllClients s m x) = free_colors s"
  "ids (sendAllClients s m x) = ids s" "phase (sendAllClients s m x) = phase s"
  "ticking (sendAllClients s m x) = ticking s"
  "stopTick (sendAllClients s m x) = stopTick s" "stopListen (sendAllClients s m x) = stopListen s"
  "stopServer (sendAllClients s m x) = stopServer s"
  "serverListener (sendAllClients s m x) = serverListener s"
  "listening (sendAllClients s m x) = listening s" "tickers (sendAllClients s m x) = tickers s"
  "launched (sendAllClients s m x) = launched s"
  "stdout (sendAllClients s m x) = stdout s"
  by (simp_all add: sendAllClients_def)

lemma send_simps [simp]:
  "players (send c m s) = players s" "free_colors (send c m s) = free_colors s"
  "ids (send c m s) = ids s" "phase (send c m s) = phase s"
  "ticking (send c m s) = ticking s"
  "stopTick (send c m s) = stopTick s" "stopListen (send c m s) = stopListen s"
  "stopServer (send c m s) = stopServer s"
  "serverListener (send c m s) = serverListener s"
  "listening (send c m s) = listening s" "tickers (send c m s) = tickers s"
  "launched (send c m s) = launched s"
  "stdout (send c m s) = stdout s"
  by (simp_all add: send_def)

lemma total_colors_cong:
  "free_colors t = free_colors s \<Longrightarrow> map color (players t) = map color (players s) \<Longrightarrow>
   total_colors t = total_colors s"
  by (simp add: total_colors_def)

lemma find_first_bound: "find_first ps x = Some i \<Longrightarrow> i < length ps \<and> id' (ps ! i) = x"
  by (induction ps arbitrary: i) (auto split: if_splits)



lemma total_colors_subscribe:
  "subscribe s p = Done t \<Longrightarrow> total_colors t = total_colors s"
  by (auto simp: subscribe_def total_colors_def split: list.splits)















lemmas run_defs = hostServer_def handleConnect_def subscribe_def Create_def colors_def print_def
  send_def sendAllClients_def handleDisconnect_def findById_def unsubscribe_def shutdown_def
  chan_send_def Let_def reaches_def handleMessage_def lobby_def game_def isAllReady_def
  start_game_def ticker_def line_def sample_json_def sample_Unmarshal_def sample_Marshal_def
  connect_message_def join_message_def newline_def tick_message_def
  ready_json_def start_json_def chat_json_def event_json_def pause_json_def
  lobby_of_two_def game_of_two_def ticking_game_def start_game_json_def

lemma Start_invariant:
  assumes step: "\<And>s e t. P s \<Longrightarrow> step J s e = Done t \<or> step J s e = Blocks t \<Longrightarrow> P t"
    and stop: "\<And>s. P s \<Longrightarrow> P (print ServerShutdown (s\<lparr>stopServer := tl (stopServer s)\<rparr>))"
    and init: "P s"
    and run: "Start J s es = Done t \<or> Start J s es = Blocks t"
  shows "P t"
  using init run
proof (induction es arbitrary: s)
  case Nil
  then show ?case by simp
next
  case (Cons e es)
  show ?case
  proof (cases "e = StopServer \<and> stopServer s \<noteq> []")
    case True
    with Cons.prems stop show ?thesis by auto
  next
    case False
    show ?thesis
    proof (cases "step J s e")
      case (Done s')
      with False Cons.prems have "Start J s' es = Done t \<or> Start J s' es = Blocks t" by auto
      moreover have "P s'" using Done step Cons.prems(1) by blast
      ultimately show ?thesis by (rule Cons.IH [rotated])
    next
      case (Blocks s')
      with False Cons.prems have "t = s'" by auto
      with Blocks step Cons.prems(1) show ?thesis by blast
    next
      case Panics
      with False Cons.prems show ?thesis by auto
    qed
  qed
qed

lemma handleConnect_Done:
  assumes "free_colors s = c # q"
  shows "\<exists>t. handleConnect s k = Done t
    \<and> players t = players s @ [\<lparr>id' = ids s, conn = k, color = c, ready = False\<rparr>]
    \<and> free_colors t = q \<and> ids t = ids s + 1 \<and> phase t = phase s
    \<and> listening t = listening s \<and> serverListener t = serverListener s
    \<and> stopListen t = stopListen s \<and> stopServer t = stopServer s"
  using assms by (simp add: handleConnect_def subscribe_def Let_def)

lemma admissions_in_queue_order:
  assumes "listening s" "serverListener s = Open" "length cs \<le> length (free_colors s)"
  shows "\<exists>t. Start J s (map (\<lambda>c. Accept (Some c)) cs) = Done t
    \<and> map color (players t) = map color (players s) @ take (length cs) (free_colors s)
    \<and> free_colors t = drop (length cs) (free_colors s)"
  using assms
proof (induction cs arbitrary: s)
  case Nil
  then show ?case by simp
next
  case (Cons k cs)
  then obtain c q where cq: "free_colors s = c # q" by (cases "free_colors s") auto
  from handleConnect_Done [OF cq, of k] obtain u where
    u: "handleConnect s k = Done u"
       "players u = players s @ [\<lparr>id' = ids s, conn = k, color = c, ready = False\<rparr>]"
       "free_colors u = q" "listening u = listening s" "serverListener u = serverListener s"
    by blast
  have "length cs \<le> length (free_colors u)" using Cons.prems cq u by simp
  from Cons.IH [OF _ _ this] u Cons.prems obtain t where
    t: "Start J u (map (\<lambda>c. Accept (Some c)) cs) = Done t"
       "map color (players t) = map color (players u) @ take (length cs) (free_colors u)"
       "free_colors t = drop (length cs) (free_colors u)"
    by auto
  have "Start J s (map (\<lambda>c. Accept (Some c)) (k # cs)) = Done t"
    using Cons.prems u t by (simp add: hostServer_def)
  with t u cq show ?case by simp
qed



lemma map_ready_update:
  assumes "\<And>x. f (x\<lparr>ready := b\<rparr>) = f x"
  shows "map f (xs[i := (xs ! i)\<lparr>ready := b\<rparr>]) = map f xs"
proof (rule nth_equalityI)
  fix j
  assume "j < length (map f (xs[i := (xs ! i)\<lparr>ready := b\<rparr>]))"
  then show "map f (xs[i := (xs ! i)\<lparr>ready := b\<rparr>]) ! j = map f xs ! j"
    using assms by (cases "i = j") simp_all
qed simp


lemma sample_states:
  "Start sample_json Create [Accept (Some 7), Accept (Some 8)] = Done lobby_of_two"
  "Start sample_json lobby_of_two [line 0 ready_json, line 1 ready_json] = Done game_of_two"
  "Start sample_json game_of_two [line 0 start_json, Accept None] = Done ticking_game"
  by (simp_all add: run_defs TrimSpace_def spaces_def)





lemma chan_send_empty [simp]: "chan_send [] = Some [True]"
  by (simp add: chan_send_def)

lemma chan_send_None [simp]: "chan_send ch = None \<longleftrightarrow> ch \<noteq> []"
  by (cases ch) (simp_all add: chan_send_def)

lemma chan_send_Some [simp]: "chan_send ch = Some ch' \<longleftrightarrow> ch = [] \<and> ch' = [True]"
  by (cases ch) (auto simp: chan_send_def)


lemma hostServer_frame:
  assumes "hostServer s r = Done t \<or> hostServer s r = Blocks t"
  shows "phase t = phase s \<and> ticking t = ticking s \<and> launched t = launched s
    \<and> (serverListener s = Closed \<longrightarrow> players t = players s \<and> ids t = ids s)
    \<and> serverListener t = serverListener s"
  using assms
  by (auto simp: hostServer_def handleConnect_def subscribe_def Let_def
      split: if_splits option.splits list.splits)

lemma handleDisconnect_frame:
  assumes "handleDisconnect s x = Done t \<or> handleDisconnect s x = Blocks t"
  shows "phase t = phase s \<and> ticking t = ticking s \<and> launched t = launched s \<and> ids t = ids s
    \<and> (serverListener s = Closed \<longrightarrow> serverListener t = Closed)"
  using assms
  by (auto simp: handleDisconnect_def shutdown_def unsubscribe_def Let_def
      split: if_splits option.splits)

lemma ticker_frame:
  "phase (ticker s) = phase s \<and> players (ticker s) = players s \<and> ids (ticker s) = ids s
   \<and> launched (ticker s) = launched s \<and> serverListener (ticker s) = serverListener s"
  by (simp add: ticker_def Let_def split: list.splits)


lemma handleMessage_phase:
  assumes "handleMessage J s mf = Done t \<or> handleMessage J s mf = Blocks t"
  shows "phase t = phase s
    \<or> phase s = 0 \<and> phase t = 1 \<and> isAllReady t
       \<and> data_Type (Unmarshal J ChatData (TrimSpace (msg mf))) = ''ready''"
  using assms
  by (auto simp: handleMessage_def lobby_def game_def Let_def isAllReady_def
      split: if_splits option.splits sum.splits)

lemma handleMessage_game_phase:
  assumes "phase s = 1" "handleMessage J s mf = Done t \<or> handleMessage J s mf = Blocks t"
  shows "players t = players s \<and> phase t = 1
    \<and> (data_Type (Unmarshal J GameData (TrimSpace (msg mf))) \<noteq> ''player_event'' \<longrightarrow> wire t = wire s)"
  using assms
  by (auto simp: handleMessage_def game_def Let_def split: if_splits option.splits)

lemma step_phase:
  assumes "step J s e = Done t \<or> step J s e = Blocks t"
  shows "phase t = phase s
    \<or> phase s = 0 \<and> phase t = 1 \<and> isAllReady t
       \<and> (\<exists>mf. e = Msg mf \<and> data_Type (Unmarshal J ChatData (TrimSpace (msg mf))) = ''ready'')"
proof (cases e)
  case (Accept r)
  with assms hostServer_frame [of s r t] show ?thesis by simp
next
  case (Msg mf)
  with assms handleMessage_phase [of J s mf t] show ?thesis by auto
next
  case (Dconn x)
  with assms handleDisconnect_frame [of s x t] show ?thesis by simp
next
  case Tick
  with assms ticker_frame [of s] show ?thesis by auto
next
  case StopServer
  with assms show ?thesis by auto
qed



lemma phase_1_stays:
  assumes "phase s = 1" "Start J s es = Done t \<or> Start J s es = Blocks t"
  shows "phase t = 1"
proof -
  have step: "\<And>s e t. phase s = 1 \<Longrightarrow> step J s e = Done t \<or> step J s e = Blocks t \<Longrightarrow> phase t = 1"
    using step_phase by fastforce
  have stop: "\<And>s. phase s = 1 \<Longrightarrow>
      phase (print ServerShutdown (s\<lparr>stopServer := tl (stopServer s)\<rparr>)) = 1"
    by simp
  show ?thesis
    using Start_invariant [where P = "\<lambda>s. phase s = 1", OF step stop assms] .
qed

lemma phase_0_or_1:
  assumes "phase s = 0 \<or> phase s = 1" "Start J s es = Done t \<or> Start J s es = Blocks t"
  shows "phase t = 0 \<or> phase t = 1"
proof -
  have step: "\<And>s e t. phase s = 0 \<or> phase s = 1 \<Longrightarrow>
      step J s e = Done t \<or> step J s e = Blocks t \<Longrightarrow> phase t = 0 \<or> phase t = 1"
    using step_phase by fastforce
  have stop: "\<And>s. phase s = 0 \<or> phase s = 1 \<Longrightarrow>
      phase (print ServerShutdown (s\<lparr>stopServer := tl (stopServer s)\<rparr>)) = 0
      \<or> phase (print ServerShutdown (s\<lparr>stopServer := tl (stopServer s)\<rparr>)) = 1"
    by simp
  show ?thesis
    using Start_invariant [where P = "\<lambda>s. phase s = 0 \<or> phase s = 1", OF step stop assms] .
qed

lemma distinct_remove_nth:
  assumes "distinct (map f xs)"
  shows "distinct (map f (take i xs @ drop (Suc i) xs))"
proof -
  have "distinct (take i (map f xs) @ drop (Suc i) (map f xs))"
    using assms set_take_disj_set_drop_if_distinct [of "map f xs" i "Suc i"] by simp
  then show ?thesis by (simp add: take_map drop_map)
qed

lemma set_remove_nth: "set (take i xs @ drop (Suc i) xs) \<subseteq> set xs"
  using set_take_subset [of i xs] set_drop_subset [of "Suc i" xs] by auto

lemma ids_ok_remove:
  assumes "distinct xs \<and> (\<forall>x \<in> set xs. P x)"
  shows "distinct (take i xs @ drop (Suc i) xs) \<and> (\<forall>x \<in> set (take i xs @ drop (Suc i) xs). P x)"
proof
  show "distinct (take i xs @ drop (Suc i) xs)"
    using assms set_take_disj_set_drop_if_distinct [of xs i "Suc i"] by simp
  show "\<forall>x \<in> set (take i xs @ drop (Suc i) xs). P x"
    using assms set_remove_nth [of i xs] by blast
qed

lemma ids_ok_unsubscribe:
  assumes "ids_ok s"
  shows "ids_ok (unsubscribe s p)"
proof (cases p)
  case None
  with assms show ?thesis by (simp add: unsubscribe_def)
next
  case (Some i)
  show ?thesis
  proof (cases "i < length (players s)")
    case True
    let ?xs = "map id' (players s)"
    have m: "map id' (players (unsubscribe s p)) = take i ?xs @ drop (Suc i) ?xs"
      using True Some by (simp add: unsubscribe_def take_map drop_map)
    have k: "ids (unsubscribe s p) = ids s"
      using True Some by (simp add: unsubscribe_def)
    have a: "distinct ?xs \<and> (\<forall>x \<in> set ?xs. 0 \<le> x \<and> x < ids s)"
      using assms unfolding ids_ok_def by blast
    have r: "distinct (take i ?xs @ drop (Suc i) ?xs)
      \<and> (\<forall>x \<in> set (take i ?xs @ drop (Suc i) ?xs). 0 \<le> x \<and> x < ids s)"
      using a by (rule ids_ok_remove)
    have z: "0 \<le> ids s" using assms unfolding ids_ok_def by blast
    show ?thesis
      unfolding ids_ok_def m k using r z by blast
  next
    case False
    with Some assms show ?thesis by (simp add: unsubscribe_def)
  qed
qed

lemma ids_ok_handleDisconnect:
  assumes "ids_ok s" "handleDisconnect s x = Done t \<or> handleDisconnect s x = Blocks t"
  shows "ids_ok t"
proof -
  let ?s1 = "if findById s x = None then print ErrorDuringDisconnect s else s"
  have "ids_ok ?s1" using assms(1) by (simp add: ids_ok_def)
  then have u: "ids_ok (unsubscribe ?s1 (findById s x))" by (rule ids_ok_unsubscribe)
  have "players t = players (unsubscribe ?s1 (findById s x)) \<and> ids t = ids (unsubscribe ?s1 (findById s x))"
    using assms(2)
    by (auto simp: handleDisconnect_def shutdown_def Let_def split: if_splits option.splits)
  with u show ?thesis by (simp add: ids_ok_def)
qed

lemma ids_ok_handleMessage:
  assumes "ids_ok s" "handleMessage J s mf = Done t \<or> handleMessage J s mf = Blocks t"
  shows "ids_ok t"
proof -
  have "ids t = ids s \<and> (players t = players s
      \<or> (\<exists>i. players t = (players s)[i := (players s ! i)\<lparr>ready := True\<rparr>]))"
    using assms(2)
    by (auto simp: handleMessage_def lobby_def game_def Let_def
        split: if_splits option.splits sum.splits)
  moreover have "\<And>i. map id' ((players s)[i := (players s ! i)\<lparr>ready := True\<rparr>]) = map id' (players s)"
    by (rule map_ready_update) simp
  ultimately have "ids t = ids s \<and> map id' (players t) = map id' (players s)" by auto
  with assms(1) show ?thesis unfolding ids_ok_def by simp
qed

lemma hostServer_players:
  assumes "hostServer s r = Done t \<or> hostServer s r = Blocks t"
  shows "players t = players s \<and> ids t = ids s
    \<or> map id' (players t) = map id' (players s) @ [ids s] \<and> ids t = ids s + 1"
  using assms
  by (auto simp: hostServer_def handleConnect_def subscribe_def Let_def
      split: if_splits option.splits list.splits)

lemma ids_ok_hostServer:
  assumes "ids_ok s" "hostServer s r = Done t \<or> hostServer s r = Blocks t"
  shows "ids_ok t"
proof -
  from hostServer_players [OF assms(2)] show ?thesis
  proof
    assume "players t = players s \<and> ids t = ids s"
    with assms(1) show ?thesis by (simp add: ids_ok_def)
  next
    assume a: "map id' (players t) = map id' (players s) @ [ids s] \<and> ids t = ids s + 1"
    have "ids s \<notin> set (map id' (players s))" using assms(1) unfolding ids_ok_def by force
    moreover have "\<forall>x \<in> set (map id' (players s)). 0 \<le> x \<and> x < ids s + 1"
      using assms(1) unfolding ids_ok_def by force
    ultimately show ?thesis using assms(1) a unfolding ids_ok_def by simp
  qed
qed

lemma ids_ok_step:
  assumes "ids_ok s" "step J s e = Done t \<or> step J s e = Blocks t"
  shows "ids_ok t"
proof (cases e)
  case (Accept r)
  with assms ids_ok_hostServer show ?thesis by auto
next
  case (Msg mf)
  with assms ids_ok_handleMessage show ?thesis by auto
next
  case (Dconn x)
  with assms ids_ok_handleDisconnect show ?thesis by auto
next
  case Tick
  with assms ticker_frame [of s] show ?thesis by (auto simp: ids_ok_def)
next
  case StopServer
  with assms show ?thesis by auto
qed

lemma ids_invariant:
  assumes "reaches J Create es s"
  shows "distinct (map id' (players s)) \<and> (\<forall>p \<in> set (players s). 0 \<le> id' p \<and> id' p < ids s)"
proof -
  have stop: "\<And>s. ids_ok s \<Longrightarrow> ids_ok (print ServerShutdown (s\<lparr>stopServer := tl (stopServer s)\<rparr>))"
    by (simp add: ids_ok_def)
  have init: "ids_ok Create" by (simp add: ids_ok_def Create_def)
  have step: "\<And>s e t. ids_ok s \<Longrightarrow> step J s e = Done t \<or> step J s e = Blocks t \<Longrightarrow> ids_ok t"
    using ids_ok_step by blast
  have run: "Start J Create es = Done s \<or> Start J Create es = Blocks s"
    using assms unfolding reaches_def .
  have "ids_ok s"
    using Start_invariant [where P = ids_ok, OF step stop init run] .
  then show ?thesis by (simp add: ids_ok_def)
qed






lemma disconnect_leaves_players:
  assumes "findById s x = Some i" "1 < length (players s)"
  shows "\<exists>t. handleDisconnect s x = Done t
    \<and> players t = take i (players s) @ drop (Suc i) (players s)
    \<and> free_colors t = free_colors s @ [color (players s ! i)]
    \<and> stopTick t = stopTick s \<and> stopListen t = stopListen s \<and> stopServer t = stopServer s
    \<and> serverListener t = serverListener s \<and> ticking t = ticking s"
proof -
  have i: "i < length (players s)" using assms(1) find_first_bound unfolding findById_def by blast
  let ?u = "print (ClientDisconnected x) (unsubscribe s (Some i))"
  have u: "players ?u = take i (players s) @ drop (Suc i) (players s)"
    "free_colors ?u = free_colors s @ [color (players s ! i)]"
    "stopTick ?u = stopTick s" "stopListen ?u = stopListen s" "stopServer ?u = stopServer s"
    "serverListener ?u = serverListener s" "ticking ?u = ticking s"
    using i by (simp_all add: unsubscribe_def)
  have "length (players ?u) = length (players s) - 1"
    unfolding u using i by simp
  then have nl: "(length (players ?u) < 1) = False" using assms(2) by simp
  have "handleDisconnect s x = Done ?u"
    unfolding handleDisconnect_def Let_def assms(1) by (simp only: nl option.simps if_False)
  with u show ?thesis by blast
qed

lemma start_launches_at_most_once:assumes "phase s = 1"
    and "data_Type (Unmarshal J GameData (TrimSpace (msg mf))) = ''start''"
  shows "handleMessage J s mf \<noteq> Panics
    \<and> (\<forall>t. handleMessage J s mf = Done t \<longrightarrow>
          ticking t \<and> launched t = launched s + (if ticking s then 0 else 1)
          \<and> players t = players s \<and> free_colors t = free_colors s \<and> phase t = 1
          \<and> wire t = wire s)
    \<and> (\<forall>t. handleMessage J s mf = Blocks t \<longrightarrow>
          ticking t = ticking s \<and> launched t = launched s \<and> stopListen t = stopListen s)"
  using assms
  by (auto simp: handleMessage_def game_def Let_def split: if_splits option.splits)

lemma unknown_type_dropped:
  assumes "phase s = 0 \<and> data_Type (Unmarshal J ChatData (TrimSpace (msg mf))) \<noteq> ''chat''
         \<and> data_Type (Unmarshal J ChatData (TrimSpace (msg mf))) \<noteq> ''ready''
       \<or> phase s = 1 \<and> stopListen s = []
         \<and> data_Type (Unmarshal J GameData (TrimSpace (msg mf))) \<noteq> ''start''
         \<and> data_Type (Unmarshal J GameData (TrimSpace (msg mf))) \<noteq> ''player_event''"
  shows "\<exists>t. handleMessage J s mf = Done t \<and> players t = players s
    \<and> free_colors t = free_colors s \<and> phase t = phase s \<and> ticking t = ticking s
    \<and> wire t = wire s \<and> length (stdout s) < length (stdout t)"
  using assms
  by (auto simp: handleMessage_def lobby_def game_def Let_def)

lemmas eval_defs= run_defs TrimSpace_def spaces_def two_messages_def two_starts_def

section \<open>The colour pool\<close>





text \<open>
  C3. The pool is a first-in-first-out queue. \<^verbatim>\<open>subscribe\<close> hands out the colour at the front
  and removes it; \<^verbatim>\<open>unsubscribe\<close> of a registered player appends the colour of that player
  at the back and removes the player; and admissions in a row, while the listener is open
  and the pool suffices, hand out the colours of the queue in queue order. So a freed
  colour is handed out again after all the colours that were in the pool before it.
\<close>

theorem color_pool_fifo:
  "(\<forall>c q. free_colors s = c # q \<longrightarrow>
      (\<exists>t. subscribe s p = Done t \<and> players t = players s @ [p\<lparr>id' := ids s, color := c\<rparr>]
         \<and> free_colors t = q))
   \<and> (\<forall>i < length (players s).
        free_colors (unsubscribe s (Some i)) = free_colors s @ [color (players s ! i)]
        \<and> players (unsubscribe s (Some i)) = take i (players s) @ drop (Suc i) (players s))
   \<and> (listening s \<and> serverListener s = Open \<and> length cs \<le> length (free_colors s) \<longrightarrow>
        (\<exists>t. Start J s (map (\<lambda>c. Accept (Some c)) cs) = Done t
           \<and> map color (players t) = map color (players s) @ take (length cs) (free_colors s)
           \<and> free_colors t = drop (length cs) (free_colors s)))"
proof (intro conjI allI impI)
  fix c q
  assume "free_colors s = c # q"
  then show "\<exists>t. subscribe s p = Done t \<and> players t = players s @ [p\<lparr>id' := ids s, color := c\<rparr>]
         \<and> free_colors t = q"
    by (simp add: subscribe_def)
next
  fix i
  assume "i < length (players s)"
  then show "free_colors (unsubscribe s (Some i)) = free_colors s @ [color (players s ! i)]"
    and "players (unsubscribe s (Some i)) = take i (players s) @ drop (Suc i) (players s)"
    by (simp_all add: unsubscribe_def)
next
  assume "listening s \<and> serverListener s = Open \<and> length cs \<le> length (free_colors s)"
  then show "\<exists>t. Start J s (map (\<lambda>c. Accept (Some c)) cs) = Done t
           \<and> map color (players t) = map color (players s) @ take (length cs) (free_colors s)
           \<and> free_colors t = drop (length cs) (free_colors s)"
    using admissions_in_queue_order by blast
qed


theorem color_pool_fifo_witness:
  "(\<exists>t. subscribe lobby_of_two \<lparr>id' = 0, conn = 9, color = [], ready = False\<rparr> = Done t
      \<and> players t = players lobby_of_two @ [\<lparr>id' = 2, conn = 9, color = ''#0000ff'', ready = False\<rparr>]
      \<and> free_colors t = [])
   \<and> free_colors (unsubscribe lobby_of_two (Some 0)) = [''#0000ff'', ''#ff0000'']
   \<and> (\<exists>t. Start sample_json (unsubscribe lobby_of_two (Some 0)) [Accept (Some 9), Accept (Some 10)]
          = Done t
        \<and> map color (players t) = [''#00ff00'', ''#0000ff'', ''#ff0000''] \<and> free_colors t = [])"
proof -
  have a: "free_colors lobby_of_two = [''#0000ff''] \<and> 0 < length (players lobby_of_two)"
    by (simp add: lobby_of_two_def)
  have b: "listening (unsubscribe lobby_of_two (Some 0))
    \<and> serverListener (unsubscribe lobby_of_two (Some 0)) = Open
    \<and> length [9, 10 :: nat] \<le> length (free_colors (unsubscribe lobby_of_two (Some 0)))"
    by (simp add: lobby_of_two_def unsubscribe_def print_def)
  show ?thesis
    using color_pool_fifo [of lobby_of_two "\<lparr>id' = 0, conn = 9, color = [], ready = False\<rparr>"
        "[]" sample_json] a
      color_pool_fifo [of "unsubscribe lobby_of_two (Some 0)"
        "\<lparr>id' = 0, conn = 9, color = [], ready = False\<rparr>" "[9, 10]" sample_json] b
    by (simp add: lobby_of_two_def unsubscribe_def print_def)
qed

section \<open>Messages in the lobby\<close>

text \<open>
  C1. In the lobby phase a ready line of a registered sender returns with the ready flag
  of that sender set and every other player as before. Exactly when at least two players
  are registered and all of them are then ready, the phase becomes 1 and one line is
  written to each player: the marshalled \<^verbatim>\<open>StartGame\<close> whose colours are the colours of the
  registered players in list order, which is the order of admission. Otherwise, and so
  always with fewer than two players, the phase stays 0 and nothing is written.
  \<^verbatim>\<open>json.Marshal\<close> does not fail on a \<^verbatim>\<open>StartGame\<close>, and no id is the sentinel \<open>-1\<close> of the
  broadcast (ids count up from 0).
\<close>

theorem ready_quorum:
  assumes "phase s = 0"
    and "data_Type (Unmarshal J ChatData (TrimSpace (msg mf))) = ''ready''"
    and "findById s (senderId mf) = Some i"
    and "\<forall>sg. \<exists>j. Marshal J sg = Inr j"
    and "\<forall>p \<in> set (players s). id' p \<noteq> - 1"
  shows "\<exists>t. handleMessage J s mf = Done t
     \<and> players t = (players s)[i := (players s ! i)\<lparr>ready := True\<rparr>]
     \<and> (if 2 \<le> length (players t) \<and> (\<forall>p \<in> set (players t). ready p)
        then phase t = 1
          \<and> (\<exists>j. Marshal J \<lparr>Type = ''start_game'', Colors = map color (players t)\<rparr> = Inr j
               \<and> wire t = wire s @ map (\<lambda>p. (conn p, j @ newline)) (players t))
        else phase t = 0 \<and> wire t = wire s)"
proof -
  define d where "d = Unmarshal J ChatData (TrimSpace (msg mf))"
  define s1 where "s1 = (if data_err d then print (ErrorProcessing (TrimSpace (msg mf))) s else s)"
  define s2 where "s2 = s1\<lparr>players := (players s1)[i := (players s1 ! i)\<lparr>ready := True\<rparr>]\<rparr>"
  have s1: "players s1 = players s" "wire s1 = wire s" "phase s1 = phase s"
    by (simp_all add: s1_def)
  have s2: "players s2 = (players s)[i := (players s ! i)\<lparr>ready := True\<rparr>]"
    "wire s2 = wire s" "phase s2 = 0"
    using s1 assms(1) by (simp_all add: s2_def)
  have ids: "map id' (players s2) = map id' (players s)"
    unfolding s2 by (rule map_ready_update) simp
  have "id' ` set (players s2) = id' ` set (players s)"
    using arg_cong [OF ids, of set] by simp
  with assms(5) have no: "\<forall>p \<in> set (players s2). id' p \<noteq> - 1" by force
  then have all: "filter (\<lambda>p. id' p \<noteq> - 1) (players s2) = players s2"
    by (simp add: filter_id_conv)
  have hm: "handleMessage J s mf =
      (if isAllReady s2 then
         (case Marshal J (start_game s2) of
            Inl e \<Rightarrow> Done (print (FatalStartGame e) s2)
          | Inr jsonByte \<Rightarrow> Done ((sendAllClients s2 jsonByte (- 1))\<lparr>phase := 1\<rparr>))
       else Done s2)"
    using assms(1,2,3)
    by (simp add: handleMessage_def lobby_def Let_def d_def s1_def s2_def split: sum.splits)
  have ar: "isAllReady s2 \<longleftrightarrow> 2 \<le> length (players s2) \<and> (\<forall>p \<in> set (players s2). ready p)"
    by (auto simp: isAllReady_def list_all_iff)
  show ?thesis
  proof (cases "isAllReady s2")
    case True
    from assms(4) obtain j where j: "Marshal J (start_game s2) = Inr j" by blast
    with True hm have "handleMessage J s mf = Done ((sendAllClients s2 j (- 1))\<lparr>phase := 1\<rparr>)"
      by simp
    moreover have "wire ((sendAllClients s2 j (- 1))\<lparr>phase := 1\<rparr>)
        = wire s @ map (\<lambda>p. (conn p, j @ newline)) (players s2)"
      using all s2 by (simp add: sendAllClients_def)
    ultimately show ?thesis
      using True ar s2 j by (auto simp: start_game_def)
  next
    case False
    with hm have "handleMessage J s mf = Done s2" by simp
    with False ar s2 show ?thesis by auto
  qed
qed

theorem ready_quorum_witness:
  "\<exists>t. handleMessage sample_json (lobby_of_two\<lparr>players := (players lobby_of_two)[1 := (players lobby_of_two ! 1)\<lparr>ready := True\<rparr>]\<rparr>)
        \<lparr>senderId = 0, msg = ready_json @ newline\<rparr> = Done t
     \<and> map ready (players t) = [True, True] \<and> phase t = 1
     \<and> wire t = wire lobby_of_two @ [(7, start_game_json @ newline), (8, start_game_json @ newline)]"
proof -
  let ?s = "lobby_of_two\<lparr>players := (players lobby_of_two)[1 := (players lobby_of_two ! 1)\<lparr>ready := True\<rparr>]\<rparr>"
  let ?mf = "\<lparr>senderId = 0, msg = ready_json @ newline\<rparr>"
  have 1: "phase ?s = 0" by (simp add: lobby_of_two_def)
  have 2: "data_Type (Unmarshal sample_json ChatData (TrimSpace (msg ?mf))) = ''ready''"
    by (simp add: run_defs TrimSpace_def spaces_def)
  have 3: "findById ?s (senderId ?mf) = Some 0" by (simp add: findById_def lobby_of_two_def)
  have 4: "\<forall>sg. \<exists>j. Marshal sample_json sg = Inr j"
    by (simp add: sample_json_def sample_Marshal_def)
  have 5: "\<forall>p \<in> set (players ?s). id' p \<noteq> - 1" by (simp add: lobby_of_two_def)
  show ?thesis
    using ready_quorum [OF 1 2 3 4 5]
    by (auto simp: lobby_of_two_def sample_json_def sample_Marshal_def start_game_json_def)
qed






section \<open>The missing player\<close>





section \<open>The phase\<close>

text \<open>
  C6. An event changes the phase only from 0 to 1, only as a ready line, and only into a
  state where at least two players are registered and all are ready. A run that starts in
  phase 1 stays in phase 1, and a run from \<open>Create\<close> is in phase 0 or 1. In phase 1 a
  message sets no ready flag, and it is relayed only if it is a player event: the lobby
  branch is not taken again.
\<close>

theorem phase_never_regresses:
  "(\<forall>t. (step J s e = Done t \<or> step J s e = Blocks t) \<and> phase t \<noteq> phase s \<longrightarrow>
        phase s = 0 \<and> phase t = 1 \<and> isAllReady t
        \<and> (\<exists>mf. e = Msg mf \<and> data_Type (Unmarshal J ChatData (TrimSpace (msg mf))) = ''ready''))
   \<and> (\<forall>t. reaches J s es t \<and> phase s = 1 \<longrightarrow> phase t = 1)
   \<and> (\<forall>t. reaches J Create es t \<longrightarrow> phase t = 0 \<or> phase t = 1)
   \<and> (\<forall>t. phase s = 1 \<and> (handleMessage J s mf = Done t \<or> handleMessage J s mf = Blocks t) \<longrightarrow>
        players t = players s
        \<and> (data_Type (Unmarshal J GameData (TrimSpace (msg mf))) \<noteq> ''player_event'' \<longrightarrow>
             wire t = wire s))"
proof (intro conjI allI impI)
  fix t
  assume a: "(step J s e = Done t \<or> step J s e = Blocks t) \<and> phase t \<noteq> phase s"
  with step_phase [of J s e t]
  show "phase s = 0" "phase t = 1" "isAllReady t"
    "\<exists>mf. e = Msg mf \<and> data_Type (Unmarshal J ChatData (TrimSpace (msg mf))) = ''ready''"
    by auto
next
  fix t
  assume a: "reaches J s es t \<and> phase s = 1"
  with phase_1_stays [of s J es t] show "phase t = 1" unfolding reaches_def by simp
next
  fix t
  assume a: "reaches J Create es t"
  with phase_0_or_1 [of Create J es t] show "phase t = 0 \<or> phase t = 1"
    unfolding reaches_def by (simp add: Create_def)
next
  fix t
  assume a: "phase s = 1 \<and> (handleMessage J s mf = Done t \<or> handleMessage J s mf = Blocks t)"
  with handleMessage_game_phase [of s J mf t]
  show "players t = players s" by simp
next
  fix t
  assume a: "phase s = 1 \<and> (handleMessage J s mf = Done t \<or> handleMessage J s mf = Blocks t)"
    and "data_Type (Unmarshal J GameData (TrimSpace (msg mf))) \<noteq> ''player_event''"
  with handleMessage_game_phase [of s J mf t]
  show "wire t = wire s" by simp
qed


theorem phase_never_regresses_witness:
  "(\<exists>t. step sample_json (lobby_of_two\<lparr>players := (players lobby_of_two)[1 := (players lobby_of_two ! 1)\<lparr>ready := True\<rparr>]\<rparr>)
          (line 0 ready_json) = Done t \<and> phase t = 1 \<and> isAllReady t)
   \<and> reaches sample_json game_of_two [line 0 start_json, Accept None] ticking_game
   \<and> phase ticking_game = 1
   \<and> (\<exists>t. handleMessage sample_json game_of_two \<lparr>senderId = 0, msg = ready_json @ newline\<rparr> = Done t
        \<and> players t = players game_of_two \<and> wire t = wire game_of_two)"
proof -
  let ?s = "lobby_of_two\<lparr>players := (players lobby_of_two)[1 := (players lobby_of_two ! 1)\<lparr>ready := True\<rparr>]\<rparr>"
  let ?u = "game_of_two\<lparr>stopListen := [True], serverListener := Closed, stdout := stdout game_of_two @ [UnknownGameType]\<rparr>"
  have 1: "step sample_json ?s (line 0 ready_json) = Done game_of_two"
    by (simp add: run_defs TrimSpace_def spaces_def)
  have 2: "reaches sample_json game_of_two [line 0 start_json, Accept None] ticking_game"
    unfolding reaches_def using sample_states(3) by (rule disjI1)
  have 3: "phase game_of_two = 1" "phase ?s = 0" by (simp_all add: run_defs)
  have 4: "handleMessage sample_json game_of_two \<lparr>senderId = 0, msg = ready_json @ newline\<rparr> = Done ?u"
    by (simp add: run_defs TrimSpace_def spaces_def)
  have 5: "data_Type (Unmarshal sample_json GameData (TrimSpace (msg \<lparr>senderId = 0, msg = ready_json @ newline\<rparr>)))
      \<noteq> ''player_event''"
    by (simp add: run_defs TrimSpace_def spaces_def)
  have ne: "phase game_of_two \<noteq> phase ?s" using 3 by simp
  note p1 = phase_never_regresses [THEN conjunct1, rule_format]
  note p2 = phase_never_regresses [THEN conjunct2, THEN conjunct1, rule_format]
  note p4 = phase_never_regresses [THEN conjunct2, THEN conjunct2, THEN conjunct2, rule_format]
  have a: "isAllReady game_of_two"
    using p1 [OF conjI [OF disjI1 [OF 1] ne]] by (rule conjunct2 [THEN conjunct2, THEN conjunct1])
  have b: "phase ticking_game = 1"
    using p2 [OF conjI [OF 2 3(1)]] .
  have c: "players ?u = players game_of_two"
    using p4 [OF conjI [OF 3(1) disjI1 [OF 4]]] by (rule conjunct1)
  have d: "wire ?u = wire game_of_two"
    using p4 [OF conjI [OF 3(1) disjI1 [OF 4]], THEN conjunct2, rule_format, OF 5] .
  have e: "phase game_of_two = 1 \<and> isAllReady game_of_two" using 3(1) a by (rule conjI)
  show ?thesis
    using 1 e 2 b 4 c d by blast
qed


section \<open>The listener and the stop signals\<close>




section \<open>Runs that park the Broker\<close>

text \<open>
  The send on \<open>stopListen\<close> at the top of the game branch runs for every message of the
  game phase, the channel holds one value, and the accept loop, its only receiver, takes
  one value and exits. The second message of the game phase therefore fills the buffer for
  good, and the next send on \<open>stopListen\<close> never returns.
\<close>

text \<open>
  C5 at the run \<open>two_messages\<close> followed by the disconnects of both players: the last
  disconnect removes the player and returns the colour, and then parks in \<^verbatim>\<open>shutdown\<close> on
  the send on \<open>stopListen\<close>. Nothing is sent on \<open>stopServer\<close>, so the select of the Broker
  loop never takes its stop case.
\<close>

theorem teardown_parks:
  "parked (Start sample_json Create (two_messages @ [Dconn 0, Dconn 1]))
   \<and> map_option players (state_of (Start sample_json Create (two_messages @ [Dconn 0, Dconn 1])))
       = Some []
   \<and> map_option stopServer (state_of (Start sample_json Create (two_messages @ [Dconn 0, Dconn 1])))
       = Some []
   \<and> Start sample_json Create (two_messages @ [Dconn 0, Dconn 1, StopServer])
       = Start sample_json Create (two_messages @ [Dconn 0, Dconn 1])"
  by (simp add: eval_defs)

text \<open>
  C7 at three start lines. The first launches the ticker. The second launches nothing but
  leaves a value in the buffer of \<open>stopListen\<close>, which was empty before it. The third parks
  the Broker: one ticker has been launched, and no later event is handled.
\<close>

theorem third_start_parks:
  "map_option stopListen (state_of (Start sample_json Create (butlast two_starts))) = Some []
   \<and> map_option stopListen (state_of (Start sample_json Create two_starts)) = Some [True]
   \<and> parked (Start sample_json Create (two_starts @ [line 0 start_json]))
   \<and> map_option launched (state_of (Start sample_json Create (two_starts @ [line 0 start_json])))
       = Some 1
   \<and> Start sample_json Create (two_starts @ [line 0 start_json, line 1 event_json])
       = Start sample_json Create (two_starts @ [line 0 start_json])"
  by (simp add: eval_defs)

text \<open>
  C8 at a line with an unknown type tag that arrives third in the game phase: the handler
  parks before it reads the tag, and the Broker handles no later event.
\<close>

theorem unknown_type_parks:
  "parked (Start sample_json Create (two_messages @ [line 0 pause_json]))
   \<and> Start sample_json Create (two_messages @ [line 0 pause_json, line 1 event_json])
       = Start sample_json Create (two_messages @ [line 0 pause_json])"
  by (simp add: eval_defs)


end
